theory Spec2Isabelle
  imports Main
begin

section \<open>Characters, strings and dictionaries of the source language\<close>

text \<open>
  A Python \<^verbatim>\<open>str\<close> is a sequence of Unicode code points and \<^verbatim>\<open>len\<close> counts code
  points, so a character is modelled by its code point (\<^verbatim>\<open>ord(c)\<close>) and a string by the
  list of its code points. Four keys of \<^verbatim>\<open>BAD_CHARS\<close> lie outside ASCII.
\<close>

type_synonym pychar = nat
type_synonym pystr = "pychar list"

definition str :: "string \<Rightarrow> pystr" where
  "str s = map of_char s"

definition endswith :: "pystr \<Rightarrow> pystr \<Rightarrow> bool" where
  "endswith s suffix = (length suffix \<le> length s \<and> drop (length s - length suffix) s = suffix)"

definition dict_get :: "('k \<rightharpoonup> 'v) \<Rightarrow> 'k \<Rightarrow> 'v \<Rightarrow> 'v" where
  "dict_get d k dflt = (case d k of None \<Rightarrow> dflt | Some v \<Rightarrow> v)"

section \<open>Module constants of \<^verbatim>\<open>parsing.py\<close>\<close>

definition CHUNK_SIZE :: nat where
  "CHUNK_SIZE = 10000"

text \<open>
  The dictionary literal in source order; a later binding of a repeated key (the
  apostrophe occurs twice) overrides the earlier one, as map update does.
\<close>

definition BAD_CHARS :: "pychar \<rightharpoonup> bool" where
  "BAD_CHARS = Map.empty
     (40 \<mapsto> True, \<comment> \<open>left parenthesis\<close>
      41 \<mapsto> True, \<comment> \<open>right parenthesis\<close>
      123 \<mapsto> True, \<comment> \<open>left brace\<close>
      125 \<mapsto> True, \<comment> \<open>right brace\<close>
      91 \<mapsto> True, \<comment> \<open>left bracket\<close>
      93 \<mapsto> True, \<comment> \<open>right bracket\<close>
      96 \<mapsto> True, \<comment> \<open>backtick\<close>
      39 \<mapsto> True, \<comment> \<open>apostrophe\<close>
      34 \<mapsto> True, \<comment> \<open>double quote\<close>
      10 \<mapsto> True, \<comment> \<open>newline\<close>
      8220 \<mapsto> True, \<comment> \<open>U+201C left curly quote\<close>
      8221 \<mapsto> True, \<comment> \<open>U+201D right curly quote\<close>
      171 \<mapsto> True, \<comment> \<open>U+00AB left guillemet\<close>
      187 \<mapsto> True, \<comment> \<open>U+00BB right guillemet\<close>
      39 \<mapsto> True, \<comment> \<open>apostrophe, again\<close>
      92 \<mapsto> True, \<comment> \<open>backslash\<close>
      95 \<mapsto> True)" \<comment> \<open>underscore\<close>

definition CLAUSE_MARKERS :: "pychar \<rightharpoonup> bool" where
  "CLAUSE_MARKERS = Map.empty
     (44 \<mapsto> True, \<comment> \<open>comma\<close>
      59 \<mapsto> True, \<comment> \<open>semicolon\<close>
      58 \<mapsto> True)" \<comment> \<open>colon\<close>

definition SENTENCE_MARKERS :: "pychar \<rightharpoonup> bool" where
  "SENTENCE_MARKERS = Map.empty
     (63 \<mapsto> True, \<comment> \<open>question mark\<close>
      46 \<mapsto> True, \<comment> \<open>full stop\<close>
      33 \<mapsto> True)" \<comment> \<open>exclamation mark\<close>

definition LONG_ENOUGH :: nat where
  "LONG_ENOUGH = 20"

section \<open>Exceptions and standard output\<close>

text \<open>
  Modelled from the spec: the exceptions of a unit of work follow the spec's taxonomy
  (source row missing, analyzer raised, storage fault); the payload stands for the
  exception's message. \<open>UnicodeEncodeError\<close> is the built-in exception that \<^verbatim>\<open>print\<close>
  raises when the encoding of standard output cannot encode a character.
\<close>

datatype error = NotFound | ExtractionFailure pystr | StorageError pystr | UnicodeEncodeError

text \<open>
  Standard output is a parameter of the program: the set of characters its encoding can
  encode. \<^verbatim>\<open>print(s)\<close> raises when \<open>s\<close> holds a character outside it. The literals that
  \<^verbatim>\<open>parsing.py\<close> prints are ASCII and are taken to be printable; only
  \<^verbatim>\<open>print(line_buff)\<close> prints text of the stream.
\<close>

type_synonym stdout = "pychar \<Rightarrow> bool"

definition py_print :: "stdout \<Rightarrow> pystr \<Rightarrow> error + unit" where
  "py_print out s = (if list_all out s then Inr () else Inl UnicodeEncodeError)"

section \<open>The streaming segmenter of \<^verbatim>\<open>process_text_stream\<close>\<close>

text \<open>
  The local variables of \<^verbatim>\<open>process_text_stream\<close> that the scanning loops update.
  \<open>futures\<close> records, in submission order, the arguments \<open>(line_no, line)\<close> of every
  \<^verbatim>\<open>pool.submit(process_line, source.id, line_no, line_buff)\<close>. A step of the loops
  returns the locals together with \<open>Inr ()\<close>, or with \<open>Inl e\<close> when it raised \<open>e\<close>; the
  locals are then those at the raise.
\<close>

record segmenter =
  line_buff :: pystr
  line_no :: nat
  ultimate_text :: pystr
  futures :: "(nat \<times> pystr) list"

text \<open>
  The statements shared by both emitting branches, in their order:
  \<^verbatim>\<open>ultimate_text += line_buff\<close>, \<^verbatim>\<open>print(line_buff)\<close>, which may raise, the
  \<^verbatim>\<open>pool.submit\<close> appended to \<^verbatim>\<open>futures\<close>, and \<^verbatim>\<open>line_no += 1\<close>.
\<close>

definition submit :: "stdout \<Rightarrow> segmenter \<Rightarrow> (error + unit) \<times> segmenter" where
  "submit out s =
     (case py_print out (line_buff s) of
        Inl e \<Rightarrow> (Inl e, s\<lparr>ultimate_text := ultimate_text s @ line_buff s\<rparr>)
      | Inr u \<Rightarrow>
          (Inr (), s\<lparr>ultimate_text := ultimate_text s @ line_buff s,
                     futures := futures s @ [(line_no s, line_buff s)],
                     line_no := line_no s + 1\<rparr>))"

text \<open>The body of \<^verbatim>\<open>for c in chunk\<close>.\<close>

definition scan_char :: "stdout \<Rightarrow> segmenter \<Rightarrow> pychar \<Rightarrow> (error + unit) \<times> segmenter" where
  "scan_char out s c =
     (if dict_get BAD_CHARS c False then
        (if \<not> endswith (line_buff s) (str '' '')
         then (Inr (), s\<lparr>line_buff := line_buff s @ str '' ''\<rparr>)
         else (Inr (), s))
      else if dict_get CLAUSE_MARKERS c False then
        (if length (line_buff s) > LONG_ENOUGH
         then (case submit out s of
                 (Inl e, s') \<Rightarrow> (Inl e, s')
               | (Inr u, s') \<Rightarrow> (Inr (), s'\<lparr>line_buff := []\<rparr>))
         else (Inr (), s\<lparr>line_buff := line_buff s @ [c]\<rparr>))
      else if dict_get SENTENCE_MARKERS c False then
        (if length (line_buff s) > LONG_ENOUGH
         then (case submit out s of
                 (Inl e, s') \<Rightarrow> (Inl e, s')
               | (Inr u, s') \<Rightarrow> (Inr (), s'\<lparr>line_buff := []\<rparr>))
         else (Inr (), s\<lparr>line_buff := []\<rparr>))
      else (Inr (), s\<lparr>line_buff := line_buff s @ [c]\<rparr>))"

text \<open>The loop \<^verbatim>\<open>for c in chunk\<close>: an exception leaves it at once.\<close>

fun scan_chars :: "stdout \<Rightarrow> segmenter \<Rightarrow> pystr \<Rightarrow> (error + unit) \<times> segmenter" where
  "scan_chars out s [] = (Inr (), s)"
| "scan_chars out s (c # cs) =
     (case scan_char out s c of
        (Inl e, s') \<Rightarrow> (Inl e, s')
      | (Inr u, s') \<Rightarrow> scan_chars out s' cs)"

text \<open>
  The loop after one of its steps: it goes on with the remaining characters unless the
  step raised. It only restates the second equation of \<open>scan_chars\<close>, for evaluation
  one character at a time.
\<close>

definition scan_from ::
  "stdout \<Rightarrow> (error + unit) \<times> segmenter \<Rightarrow> pystr \<Rightarrow> (error + unit) \<times> segmenter" where
  "scan_from out r cs =
     (case r of
        (Inl e, s) \<Rightarrow> (Inl e, s)
      | (Inr u, s) \<Rightarrow> scan_chars out s cs)"

text \<open>
  The body of \<^verbatim>\<open>while len(chunk) > 0\<close>: \<^verbatim>\<open>line_buff = ""\<close> and then the loop over
  the characters of the chunk.
\<close>

definition scan_chunk :: "stdout \<Rightarrow> segmenter \<Rightarrow> pystr \<Rightarrow> (error + unit) \<times> segmenter" where
  "scan_chunk out s chunk = scan_chars out (s\<lparr>line_buff := []\<rparr>) chunk"

text \<open>
  The chunk loop. The stream is the text not yet read, already decoded;
  \<^verbatim>\<open>text.read(n)\<close> returns its first \<open>n\<close> characters (fewer at the end, none once
  exhausted) and advances past them.
\<close>

function read_chunks ::
  "stdout \<Rightarrow> nat \<Rightarrow> segmenter \<Rightarrow> pystr \<Rightarrow> (error + unit) \<times> segmenter" where
  "read_chunks out n s text =
     (if length (take n text) > 0
      then (case scan_chunk out s (take n text) of
              (Inl e, s') \<Rightarrow> (Inl e, s')
            | (Inr u, s') \<Rightarrow> read_chunks out n s' (drop n text))
      else (Inr (), s))"
  by pat_completeness auto
termination
  by (relation "measure (\<lambda>(out, n, s, text). length text)") auto

declare read_chunks.simps [simp del]

text \<open>
  The state before the first read: \<^verbatim>\<open>line_no = 0\<close>, \<^verbatim>\<open>ultimate_text = ''\<close>,
  \<^verbatim>\<open>futures = []\<close>; \<^verbatim>\<open>line_buff\<close> is not yet bound, and is set before it is first read.
\<close>

definition initial :: segmenter where
  "initial = \<lparr>line_buff = [], line_no = 0, ultimate_text = [], futures = []\<rparr>"

definition segment_stream :: "stdout \<Rightarrow> nat \<Rightarrow> pystr \<Rightarrow> (error + unit) \<times> segmenter" where
  "segment_stream out n text = read_chunks out n initial text"


section \<open>The unit of work \<^verbatim>\<open>process_line\<close>\<close>

text \<open>
  \<^verbatim>\<open>prosaic.models\<close> (\<^verbatim>\<open>Phrase\<close>, \<^verbatim>\<open>Source\<close>, \<^verbatim>\<open>Database\<close>, \<^verbatim>\<open>get_session\<close>) and
  \<^verbatim>\<open>prosaic.nlp\<close> are imported by \<^verbatim>\<open>parsing.py\<close> but are not part of it; what
  \<^verbatim>\<open>process_line\<close> needs of them is modelled below.
\<close>

text \<open>
  A \<^verbatim>\<open>Phrase\<close> row, with the keyword arguments \<^verbatim>\<open>process_line\<close> passes to its
  constructor; the \<^verbatim>\<open>Source\<close> object it is attached to is represented by its identifier.
\<close>

record phrase =
  stems :: "pystr list"
  raw :: pystr
  alliteration :: bool
  rhyme_sound :: pystr
  syllables :: int
  phrase_line_no :: nat
  source :: nat

text \<open>
  Modelled from the spec: the durable storage shared by all sessions. A \<^verbatim>\<open>Source\<close> row is
  keyed by its identifier and only its \<^verbatim>\<open>content\<close> column is touched here; the
  \<^verbatim>\<open>Phrase\<close> table is kept in commit order.
\<close>

record database =
  sources :: "nat \<rightharpoonup> pystr"
  phrases :: "phrase list"

text \<open>
  Modelled from the spec: the collaborators as parameters. Each analyzer call of
  \<^verbatim>\<open>prosaic.nlp\<close> either returns a value or raises; \<open>get_session_fault\<close> is the exception
  (if any) of opening a session, \<open>commit_fault\<close> the persistence fault (if any) of
  committing a given phrase.
\<close>

record collaborators =
  get_session_fault :: "error option"
  stem_sentence :: "pystr \<Rightarrow> error + pystr list"
  nlp_rhyme_sound :: "pystr \<Rightarrow> error + pystr"
  count_syllables :: "pystr \<Rightarrow> error + int"
  has_alliteration :: "pystr \<Rightarrow> error + bool"
  commit_fault :: "phrase \<Rightarrow> error option"

text \<open>
  Modelled from the spec: \<^verbatim>\<open>session.query(Source).filter(Source.id == source_id).one()\<close>
  returns the one row with that identifier and raises when there is none.
\<close>

definition query_source_one :: "database \<Rightarrow> nat \<Rightarrow> error + nat" where
  "query_source_one db source_id =
     (case sources db source_id of None \<Rightarrow> Inl NotFound | Some content \<Rightarrow> Inr source_id)"

text \<open>
  Modelled from the spec: \<^verbatim>\<open>session.add(phrase); session.commit()\<close> writes the row
  durably, or fails with the storage fault and writes nothing.
\<close>

definition add_commit :: "collaborators \<Rightarrow> database \<Rightarrow> phrase \<Rightarrow> (error + unit) \<times> database" where
  "add_commit env db p =
     (case commit_fault env p of
        Some e \<Rightarrow> (Inl e, db)
      | None \<Rightarrow> (Inr (), db\<lparr>phrases := phrases db @ [p]\<rparr>))"

text \<open>
  \<^verbatim>\<open>process_line(source_id, line_no, line)\<close>, statement by statement; an exception
  raised by a statement ends the unit with that exception. The result pairs the outcome
  with the storage the unit leaves behind.
\<close>

definition process_line ::
  "collaborators \<Rightarrow> database \<Rightarrow> nat \<Rightarrow> nat \<Rightarrow> pystr \<Rightarrow> (error + unit) \<times> database" where
  "process_line env db source_id ln line =
     (case get_session_fault env of Some e \<Rightarrow> (Inl e, db) | None \<Rightarrow>
     (case query_source_one db source_id of Inl e \<Rightarrow> (Inl e, db) | Inr src \<Rightarrow>
     (case stem_sentence env line of Inl e \<Rightarrow> (Inl e, db) | Inr st \<Rightarrow>
     (case nlp_rhyme_sound env line of Inl e \<Rightarrow> (Inl e, db) | Inr rs \<Rightarrow>
     (case count_syllables env line of Inl e \<Rightarrow> (Inl e, db) | Inr sy \<Rightarrow>
     (case has_alliteration env line of Inl e \<Rightarrow> (Inl e, db) | Inr al \<Rightarrow>
        add_commit env db
          \<lparr>stems = st, raw = line, alliteration = al, rhyme_sound = rs,
           syllables = sy, phrase_line_no = ln, source = src\<rparr>))))))"

section \<open>Dispatch, completion barrier and source finaliser\<close>






section \<open>Vocabulary of the statements\<close>




section \<open>Example standard output, collaborators and storage\<close>

text \<open>A standard output with the ASCII codec.\<close>

definition ascii_stdout :: stdout where
  "ascii_stdout c = (c < 128)"


text \<open>Analyzers that never raise, on a storage that never fails.\<close>

definition reliable :: collaborators where
  "reliable =
     \<lparr>get_session_fault = None,
      stem_sentence = (\<lambda>line. Inr [line]),
      nlp_rhyme_sound = (\<lambda>line. Inr (take 2 (rev line))),
      count_syllables = (\<lambda>line. Inr (int (length line) div 3)),
      has_alliteration = (\<lambda>line. Inr False),
      commit_fault = (\<lambda>p. None)\<rparr>"

text \<open>The syllable counter raises on every line.\<close>

definition no_syllables :: collaborators where
  "no_syllables = reliable\<lparr>count_syllables := (\<lambda>line. Inl (ExtractionFailure line))\<rparr>"


text \<open>A storage holding source 7 and no phrase.\<close>

definition one_source :: database where
  "one_source = \<lparr>sources = [7 \<mapsto> str ''old content''], phrases = []\<rparr>"



section \<open>Classification of characters\<close>

lemma bad_iff:
  "dict_get BAD_CHARS c False \<longleftrightarrow>
     c \<in> {40, 41, 123, 125, 91, 93, 96, 39, 34, 10, 8220, 8221, 171, 187, 92, 95}"
  by (auto simp add: dict_get_def BAD_CHARS_def)

lemma clause_iff: "dict_get CLAUSE_MARKERS c False \<longleftrightarrow> c \<in> {44, 59, 58}"
  by (auto simp add: dict_get_def CLAUSE_MARKERS_def)

lemma sentence_iff: "dict_get SENTENCE_MARKERS c False \<longleftrightarrow> c \<in> {63, 46, 33}"
  by (auto simp add: dict_get_def SENTENCE_MARKERS_def)

lemma markers_not_bad:
  "dict_get CLAUSE_MARKERS c False \<or> dict_get SENTENCE_MARKERS c False \<Longrightarrow>
   \<not> dict_get BAD_CHARS c False"
  by (auto simp add: bad_iff clause_iff sentence_iff)

lemma sentence_not_clause:
  "dict_get SENTENCE_MARKERS c False \<Longrightarrow> \<not> dict_get CLAUSE_MARKERS c False"
  by (auto simp add: clause_iff sentence_iff)

lemma space_ordinary:
  "\<not> dict_get BAD_CHARS 32 False" "\<not> dict_get SENTENCE_MARKERS 32 False"
  by (simp_all add: bad_iff sentence_iff)

lemma str_space: "str '' '' = [32]"
  by (simp add: str_def)

lemma endswith_space: "endswith b (str '' '') \<longleftrightarrow> b \<noteq> [] \<and> last b = 32"
proof (cases b rule: rev_cases)
  case Nil
  then show ?thesis by (simp add: endswith_def str_space)
next
  case (snoc ys y)
  then show ?thesis by (simp add: endswith_def str_space)
qed

section \<open>One character at a time\<close>

lemma submit_prints:
  "list_all out (line_buff s) \<Longrightarrow>
   submit out s = (Inr (), s\<lparr>ultimate_text := ultimate_text s @ line_buff s,
                              futures := futures s @ [(line_no s, line_buff s)],
                              line_no := line_no s + 1\<rparr>)"
  by (simp add: submit_def py_print_def)

lemma submit_raises:
  "\<not> list_all out (line_buff s) \<Longrightarrow>
   submit out s = (Inl UnicodeEncodeError, s\<lparr>ultimate_text := ultimate_text s @ line_buff s\<rparr>)"
  by (simp add: submit_def py_print_def)

lemma scan_char_bad:
  "dict_get BAD_CHARS c False \<Longrightarrow>
   scan_char out s c = (Inr (), if endswith (line_buff s) (str '' '') then s
                                else s\<lparr>line_buff := line_buff s @ str '' ''\<rparr>)"
  by (simp add: scan_char_def)

lemma scan_char_clause:
  "dict_get CLAUSE_MARKERS c False \<Longrightarrow>
   scan_char out s c =
     (if length (line_buff s) > LONG_ENOUGH
      then (if list_all out (line_buff s)
            then (Inr (), s\<lparr>ultimate_text := ultimate_text s @ line_buff s,
                            futures := futures s @ [(line_no s, line_buff s)],
                            line_no := line_no s + 1, line_buff := []\<rparr>)
            else (Inl UnicodeEncodeError,
                  s\<lparr>ultimate_text := ultimate_text s @ line_buff s\<rparr>))
      else (Inr (), s\<lparr>line_buff := line_buff s @ [c]\<rparr>))"
  using markers_not_bad [of c] by (simp add: scan_char_def submit_prints submit_raises)

lemma scan_char_sentence:
  "dict_get SENTENCE_MARKERS c False \<Longrightarrow>
   scan_char out s c =
     (if length (line_buff s) > LONG_ENOUGH
      then (if list_all out (line_buff s)
            then (Inr (), s\<lparr>ultimate_text := ultimate_text s @ line_buff s,
                            futures := futures s @ [(line_no s, line_buff s)],
                            line_no := line_no s + 1, line_buff := []\<rparr>)
            else (Inl UnicodeEncodeError,
                  s\<lparr>ultimate_text := ultimate_text s @ line_buff s\<rparr>))
      else (Inr (), s\<lparr>line_buff := []\<rparr>))"
  using markers_not_bad [of c] sentence_not_clause [of c]
  by (simp add: scan_char_def submit_prints submit_raises)

lemma scan_char_ordinary:
  "\<not> dict_get BAD_CHARS c False \<Longrightarrow> \<not> dict_get CLAUSE_MARKERS c False \<Longrightarrow>
   \<not> dict_get SENTENCE_MARKERS c False \<Longrightarrow>
   scan_char out s c = (Inr (), s\<lparr>line_buff := line_buff s @ [c]\<rparr>)"
  by (simp add: scan_char_def)

text \<open>Every character falls under exactly one of the four cases.\<close>

lemma scan_char_cases [case_names bad clause sentence ordinary]:
  assumes "dict_get BAD_CHARS c False \<Longrightarrow> P"
    and "dict_get CLAUSE_MARKERS c False \<Longrightarrow> P"
    and "dict_get SENTENCE_MARKERS c False \<Longrightarrow> P"
    and "\<not> dict_get BAD_CHARS c False \<Longrightarrow> \<not> dict_get CLAUSE_MARKERS c False \<Longrightarrow>
         \<not> dict_get SENTENCE_MARKERS c False \<Longrightarrow> P"
  shows P
  using assms by blast


section \<open>The loops\<close>

lemma scan_chars_Cons:
  "scan_chars out s (c # cs) =
     (if fst (scan_char out s c) = Inr ()
      then scan_chars out (snd (scan_char out s c)) cs
      else scan_char out s c)"
  by (cases "scan_char out s c") (auto split: sum.splits)

lemma scan_chars_append:
  "scan_chars out s (xs @ ys) =
     (if fst (scan_chars out s xs) = Inr ()
      then scan_chars out (snd (scan_chars out s xs)) ys
      else scan_chars out s xs)"
proof (induction xs arbitrary: s)
  case Nil
  show ?case by simp
next
  case (Cons c cs)
  show ?case
    by (simp only: append_Cons scan_chars_Cons Cons.IH) simp
qed

lemma read_chunks_Nil: "read_chunks out n s [] = (Inr (), s)"
  by (subst read_chunks.simps) simp

lemma read_chunks_step:
  "text \<noteq> [] \<Longrightarrow> 0 < n \<Longrightarrow>
   read_chunks out n s text =
     (if fst (scan_chunk out s (take n text)) = Inr ()
      then read_chunks out n (snd (scan_chunk out s (take n text))) (drop n text)
      else scan_chunk out s (take n text))"
  by (subst read_chunks.simps) (cases "scan_chunk out s (take n text)", auto split: sum.splits)

lemma read_chunks_stop:
  "text = [] \<or> n = 0 \<Longrightarrow> read_chunks out n s text = (Inr (), s)"
  by (subst read_chunks.simps) auto

lemma read_chunks_short:
  "text \<noteq> [] \<Longrightarrow> length text \<le> n \<Longrightarrow> read_chunks out n s text = scan_chunk out s text"
proof -
  assume ne: "text \<noteq> []" and le: "length text \<le> n"
  then have pos: "0 < n" by (cases "text") auto
  from le have whole: "take n text = text" "drop n text = []" by simp_all
  show ?thesis
    by (cases "scan_chunk out s text")
       (simp add: read_chunks_step [OF ne pos] whole read_chunks_Nil)
qed

text \<open>
  A property of the result that holds before the first read, survives the reset of the
  line buffer and survives every character of the text, holds when the loops are left,
  whether they ran through or raised.
\<close>

lemma scan_chars_invariant:
  assumes "P (Inr (), s)"
    and "\<And>s c. c \<in> set cs \<Longrightarrow> P (Inr (), s) \<Longrightarrow> P (scan_char out s c)"
  shows "P (scan_chars out s cs)"
  using assms
proof (induction cs arbitrary: s)
  case Nil
  then show ?case by simp
next
  case (Cons c cs)
  have step: "P (scan_char out s c)"
    using Cons.prems by simp
  show ?case
  proof (cases "fst (scan_char out s c) = Inr ()")
    case True
    then have "scan_char out s c = (Inr (), snd (scan_char out s c))"
      by (metis prod.collapse)
    with step have "P (Inr (), snd (scan_char out s c))" by simp
    then have "P (scan_chars out (snd (scan_char out s c)) cs)"
      using Cons.prems(2) by (intro Cons.IH) simp_all
    with True show ?thesis by (subst scan_chars_Cons) simp
  next
    case False
    with step show ?thesis by (subst scan_chars_Cons) simp
  qed
qed

lemma read_chunks_invariant:
  assumes "P (Inr (), s)"
    and "\<And>s. P (Inr (), s) \<Longrightarrow> P (Inr (), s\<lparr>line_buff := []\<rparr>)"
    and "\<And>s c. c \<in> set text \<Longrightarrow> P (Inr (), s) \<Longrightarrow> P (scan_char out s c)"
  shows "P (read_chunks out n s text)"
  using assms(1,3)
proof (induction out n s "text" rule: read_chunks.induct)
  case (1 out n s t)
  show ?case
  proof (cases "t = [] \<or> n = 0")
    case True
    with "1.prems"(1) show ?thesis by (simp only: read_chunks_stop)
  next
    case False
    then have ne: "t \<noteq> []" and pos: "0 < n" by simp_all
    then have len: "0 < length (take n t)" by simp
    have "P (Inr (), s\<lparr>line_buff := []\<rparr>)"
      using "1.prems"(1) by (rule assms(2))
    then have chunk: "P (scan_chunk out s (take n t))"
      unfolding scan_chunk_def
      by (rule scan_chars_invariant) (auto dest: in_set_takeD intro: "1.prems"(2))
    show ?thesis
    proof (cases "fst (scan_chunk out s (take n t)) = Inr ()")
      case True
      then have eq: "scan_chunk out s (take n t) = (Inr (), snd (scan_chunk out s (take n t)))"
        by (metis prod.collapse)
      with chunk have "P (Inr (), snd (scan_chunk out s (take n t)))" by simp
      then have "P (read_chunks out n (snd (scan_chunk out s (take n t))) (drop n t))"
        using "1.prems"(2) by (intro "1.IH" [OF len eq [symmetric] refl]) (auto dest: in_set_dropD)
      with True show ?thesis by (subst read_chunks_step [OF ne pos]) simp
    next
      case False
      with chunk show ?thesis by (subst read_chunks_step [OF ne pos]) simp
    qed
  qed
qed




text \<open>On a text that standard output can encode, no \<^verbatim>\<open>print\<close> raises.\<close>

lemma scan_char_printable:
  assumes "out 32" and "out c" and "list_all out (line_buff s)"
  shows "fst (scan_char out s c) = Inr () \<and> list_all out (line_buff (snd (scan_char out s c)))"
proof (cases c rule: scan_char_cases)
  case bad
  with assms show ?thesis by (simp add: scan_char_bad str_space)
next
  case clause
  with assms show ?thesis by (simp add: scan_char_clause)
next
  case sentence
  with assms show ?thesis by (simp add: scan_char_sentence)
next
  case ordinary
  with assms show ?thesis by (simp add: scan_char_ordinary)
qed

lemma read_chunks_printable:
  assumes "out 32" and "list_all out text" and "list_all out (line_buff s)"
  shows "fst (read_chunks out n s text) = Inr ()"
proof -
  let ?P = "\<lambda>r. fst r = Inr () \<and> list_all out (line_buff (snd r))"
  have "?P (read_chunks out n s text)"
  proof (rule read_chunks_invariant [where P = ?P])
    show "?P (Inr (), s)" using assms(3) by simp
  next
    fix s' :: segmenter
    show "?P (Inr (), s'\<lparr>line_buff := []\<rparr>)" by simp
  next
    fix s' :: segmenter and c
    assume "c \<in> set text" and "?P (Inr (), s')"
    with assms(1,2) show "?P (scan_char out s' c)"
      using scan_char_printable [of out c s'] by (simp add: list_all_iff)
  qed
  then show ?thesis by simp
qed

section \<open>Evaluating the segmenter on literal inputs\<close>

lemmas eval_segmenter =
  segment_stream_def read_chunks_short CHUNK_SIZE_def str_def scan_chunk_def
  initial_def scan_char_def bad_iff clause_iff sentence_iff LONG_ENOUGH_def submit_def
  py_print_def endswith_def ascii_stdout_def

section \<open>Preservation lemmas for the scan\<close>

lemma long_step:
  assumes "\<forall>(k, p) \<in> set (futures s). LONG_ENOUGH < length p"
  shows "\<forall>(k, p) \<in> set (futures (snd (scan_char out s c))). LONG_ENOUGH < length p"
  using assms
  by (cases c rule: scan_char_cases)
     (simp_all add: scan_char_bad scan_char_clause scan_char_sentence scan_char_ordinary)

lemma numbered_step:
  assumes "map fst (futures s) = [0..<line_no s]"
  shows "map fst (futures (snd (scan_char out s c))) = [0..<line_no (snd (scan_char out s c))]"
  using assms
  by (cases c rule: scan_char_cases)
     (simp_all add: scan_char_bad scan_char_clause scan_char_sentence scan_char_ordinary)

lemma accumulated_step:
  assumes "ultimate_text s = concat (map snd (futures s))"
  shows "fst (scan_char out s c) = Inr () \<longrightarrow>
         ultimate_text (snd (scan_char out s c)) = concat (map snd (futures (snd (scan_char out s c))))"
  using assms
  by (cases c rule: scan_char_cases)
     (simp_all add: scan_char_bad scan_char_clause scan_char_sentence scan_char_ordinary)

lemma clean_step:
  assumes "\<forall>c \<in> set (line_buff s). \<not> dict_get BAD_CHARS c False \<and> \<not> dict_get SENTENCE_MARKERS c False"
      and "\<forall>(k, p) \<in> set (futures s). \<forall>c \<in> set p. \<not> dict_get BAD_CHARS c False \<and> \<not> dict_get SENTENCE_MARKERS c False"
  shows "(\<forall>c \<in> set (line_buff (snd (scan_char out s x))). \<not> dict_get BAD_CHARS c False \<and> \<not> dict_get SENTENCE_MARKERS c False)
       \<and> (\<forall>(k, p) \<in> set (futures (snd (scan_char out s x))). \<forall>c \<in> set p. \<not> dict_get BAD_CHARS c False \<and> \<not> dict_get SENTENCE_MARKERS c False)"
proof (cases x rule: scan_char_cases)
  case bad
  with assms show ?thesis
    by (simp add: scan_char_bad str_space space_ordinary)
next
  case clause
  then have "\<not> dict_get BAD_CHARS x False" "\<not> dict_get SENTENCE_MARKERS x False"
    using markers_not_bad [of x] sentence_not_clause [of x] by blast+
  with clause assms show ?thesis
    by (simp add: scan_char_clause)
next
  case sentence
  with assms show ?thesis
    by (simp add: scan_char_sentence)
next
  case ordinary
  with assms show ?thesis
    by (simp add: scan_char_ordinary)
qed

text \<open>A run of filtered characters acts like its first character.\<close>

lemma bad_run_after_space:
  "endswith (line_buff s) (str '' '') \<Longrightarrow> \<forall>c \<in> set run. dict_get BAD_CHARS c False \<Longrightarrow>
   scan_chars out s run = (Inr (), s)"
  by (induction run) (simp_all add: scan_char_bad)

lemma bad_run:
  assumes "run \<noteq> []" and "\<forall>c \<in> set run. dict_get BAD_CHARS c False"
  shows "scan_chars out s run =
           (Inr (), if endswith (line_buff s) (str '' '') then s
                    else s\<lparr>line_buff := line_buff s @ str '' ''\<rparr>)"
proof (cases run)
  case Nil
  with assms(1) show ?thesis by simp
next
  case (Cons c cs)
  with assms(2) have c: "dict_get BAD_CHARS c False" and cs: "\<forall>c \<in> set cs. dict_get BAD_CHARS c False"
    by simp_all
  let ?s' = "if endswith (line_buff s) (str '' '') then s
             else s\<lparr>line_buff := line_buff s @ str '' ''\<rparr>"
  have "endswith (line_buff ?s') (str '' '')"
    by (simp add: endswith_space) (simp add: str_space)
  then have "scan_chars out ?s' cs = (Inr (), ?s')"
    using cs by (rule bad_run_after_space)
  with Cons c show ?thesis by (simp add: scan_char_bad)
qed

text \<open>A run of ordinary characters is appended to the line buffer as it is.\<close>

lemma ordinary_run:
  assumes "\<not> dict_get BAD_CHARS c False" "\<not> dict_get CLAUSE_MARKERS c False"
    "\<not> dict_get SENTENCE_MARKERS c False"
  shows "scan_chars out s (replicate k c) = (Inr (), s\<lparr>line_buff := line_buff s @ replicate k c\<rparr>)"
proof (induction k arbitrary: s)
  case 0
  show ?case by simp
next
  case (Suc k)
  have "scan_chars out s (replicate (Suc k) c)
      = scan_chars out (s\<lparr>line_buff := line_buff s @ [c]\<rparr>) (replicate k c)"
    by (simp add: scan_char_ordinary assms)
  also have "\<dots> = (Inr (), s\<lparr>line_buff := line_buff s @ replicate (Suc k) c\<rparr>)"
    by (simp add: Suc.IH)
  finally show ?case .
qed

lemma scan_chars_single: "scan_chars out s [c] = scan_char out s c"
  by (cases "scan_char out s c") (auto split: sum.splits)

lemma comma_is_clause: "dict_get CLAUSE_MARKERS 44 False"
  by (simp add: clause_iff)

text \<open>A phrase of \<open>k\<close> ordinary characters closed by a comma, read in chunks of \<open>k\<close>.\<close>

lemma split_at_marker:
  assumes "\<not> dict_get BAD_CHARS c False" "\<not> dict_get CLAUSE_MARKERS c False"
    "\<not> dict_get SENTENCE_MARKERS c False" and "0 < k"
  shows "read_chunks out k initial (replicate k c @ [44]) =
           (Inr (), initial\<lparr>line_buff := [44]\<rparr>)"
proof -
  have ne: "replicate k c @ [44] \<noteq> []" by simp
  have first: "scan_chunk out initial (replicate k c) = (Inr (), initial\<lparr>line_buff := replicate k c\<rparr>)"
    by (simp add: scan_chunk_def ordinary_run [OF assms(1-3)])
  have "read_chunks out k initial (replicate k c @ [44])
      = read_chunks out k (initial\<lparr>line_buff := replicate k c\<rparr>) [44]"
    by (subst read_chunks_step [OF ne \<open>0 < k\<close>]) (simp add: first)
  also have "\<dots> = scan_chunk out (initial\<lparr>line_buff := replicate k c\<rparr>) [44]"
    using \<open>0 < k\<close> by (intro read_chunks_short) simp_all
  also have "\<dots> = (Inr (), initial\<lparr>line_buff := [44]\<rparr>)"
    by (simp add: scan_chunk_def scan_char_clause comma_is_clause LONG_ENOUGH_def)
  finally show ?thesis .
qed

lemma whole_in_one_chunk:
  assumes "\<not> dict_get BAD_CHARS c False" "\<not> dict_get CLAUSE_MARKERS c False"
    "\<not> dict_get SENTENCE_MARKERS c False" and "LONG_ENOUGH < k"
  shows "scan_chunk out initial (replicate k c @ [44]) =
           (if out c
            then (Inr (), \<lparr>line_buff = [], line_no = 1, ultimate_text = replicate k c,
                           futures = [(0, replicate k c)]\<rparr>)
            else (Inl UnicodeEncodeError,
                  \<lparr>line_buff = replicate k c, line_no = 0, ultimate_text = replicate k c,
                   futures = []\<rparr>))"
proof -
  from assms(4) have k: "0 < k" by simp
  have "scan_chunk out initial (replicate k c @ [44])
      = scan_char out (initial\<lparr>line_buff := replicate k c\<rparr>) 44"
    by (simp add: scan_chunk_def scan_chars_append ordinary_run [OF assms(1-3)]
        scan_chars_single del: scan_chars.simps)
  also have "\<dots> = (if out c
            then (Inr (), \<lparr>line_buff = [], line_no = 1, ultimate_text = replicate k c,
                           futures = [(0, replicate k c)]\<rparr>)
            else (Inl UnicodeEncodeError,
                  \<lparr>line_buff = replicate k c, line_no = 0, ultimate_text = replicate k c,
                   futures = []\<rparr>))"
    using assms(4) k by (simp add: scan_char_clause comma_is_clause initial_def list_all_iff)
  finally show ?thesis .
qed

section \<open>Evaluating a stream one character at a time\<close>

lemma scan_from_simps:
  "scan_from out (Inl e, s) cs = (Inl e, s)"
  "scan_from out (Inr u, s) cs = scan_chars out s cs"
  by (simp_all add: scan_from_def)

lemma scan_chars_step: "scan_chars out s (c # cs) = scan_from out (scan_char out s c) cs"
  by (simp add: scan_from_def)

declare scan_chars.simps(2) [simp del]

lemmas eval_stream = eval_segmenter scan_chars_step scan_from_simps

section \<open>Properties of the streaming segmenter\<close>

text \<open>
  C4. For every input text, every chunk size and every standard output, each phrase
  submitted by the segmenter is strictly longer than \<open>LONG_ENOUGH\<close> (20) characters; this
  covers the clause-marker and the sentence-marker branch, the only places where a
  phrase is submitted.
\<close>

theorem emitted_longer_than_LONG_ENOUGH:
  "\<forall>(k, p) \<in> set (futures (snd (segment_stream out n text))). LONG_ENOUGH < length p"
  unfolding segment_stream_def
  by (rule read_chunks_invariant
        [where P = "\<lambda>r. \<forall>(k, p) \<in> set (futures (snd r)). LONG_ENOUGH < length p"])
     (simp_all add: initial_def long_step)

theorem emitted_longer_than_LONG_ENOUGH_witness:
  "(0, str ''twentycharacterslongg'')
     \<in> set (futures (snd (segment_stream ascii_stdout CHUNK_SIZE (str ''twentycharacterslongg,''))))
   \<and> LONG_ENOUGH < length (str ''twentycharacterslongg'')"
proof -
  have m: "(0, str ''twentycharacterslongg'')
     \<in> set (futures (snd (segment_stream ascii_stdout CHUNK_SIZE (str ''twentycharacterslongg,''))))"
    by (simp add: eval_stream)
  with emitted_longer_than_LONG_ENOUGH [of ascii_stdout CHUNK_SIZE "str ''twentycharacterslongg,''"]
  show ?thesis by blast
qed

text \<open>
  C5. For every input stream the sequence numbers of the submitted phrases are
  \<open>0, 1, 2, \<dots>\<close> in submission order: numbering starts at 0 and every submission uses the
  current \<open>line_no\<close> and then increments it by one, so that \<open>line_no\<close> stays the number
  of submissions.
\<close>

theorem sequence_numbers_count_from_zero:
  "map fst (futures (snd (segment_stream out n text)))
     = [0..<length (futures (snd (segment_stream out n text)))]
   \<and> line_no (snd (segment_stream out n text))
     = length (futures (snd (segment_stream out n text)))"
proof -
  have "map fst (futures (snd (segment_stream out n text)))
          = [0..<line_no (snd (segment_stream out n text))]"
    unfolding segment_stream_def
    by (rule read_chunks_invariant
          [where P = "\<lambda>r. map fst (futures (snd r)) = [0..<line_no (snd r)]"])
       (simp_all add: initial_def numbered_step)
  moreover from this have "line_no (snd (segment_stream out n text))
     = length (futures (snd (segment_stream out n text)))"
    by (metis length_map length_upt minus_nat.diff_0)
  ultimately show ?thesis by simp
qed

text \<open>
  C8. A filtered character appends one space to the line buffer unless the buffer
  already ends with a space, in which case it is dropped; hence a run of consecutive
  filtered characters adds at most one space, and the stream \<^verbatim>\<open>a((()))b\<close> leaves the
  buffer \<^verbatim>\<open>a b\<close>. No step of these raises, whatever standard output can encode.
\<close>

theorem filtered_run_collapses_to_one_space:
  "(dict_get BAD_CHARS c False \<longrightarrow>
      scan_char out s c = (Inr (), if endswith (line_buff s) (str '' '') then s
                                   else s\<lparr>line_buff := line_buff s @ str '' ''\<rparr>))
   \<and> (run \<noteq> [] \<and> (\<forall>c \<in> set run. dict_get BAD_CHARS c False) \<longrightarrow>
      scan_chars out s run = (Inr (), if endswith (line_buff s) (str '' '') then s
                                      else s\<lparr>line_buff := line_buff s @ str '' ''\<rparr>))
   \<and> fst (segment_stream out CHUNK_SIZE (str ''a((()))b'')) = Inr ()
   \<and> line_buff (snd (segment_stream out CHUNK_SIZE (str ''a((()))b''))) = str ''a b''"
proof (intro conjI impI)
  assume "dict_get BAD_CHARS c False"
  then show "scan_char out s c = (Inr (), if endswith (line_buff s) (str '' '') then s
                                   else s\<lparr>line_buff := line_buff s @ str '' ''\<rparr>)"
    by (rule scan_char_bad)
next
  assume "run \<noteq> [] \<and> (\<forall>c \<in> set run. dict_get BAD_CHARS c False)"
  then show "scan_chars out s run = (Inr (), if endswith (line_buff s) (str '' '') then s
                                      else s\<lparr>line_buff := line_buff s @ str '' ''\<rparr>)"
    using bad_run [where run = run and s = s and out = out] by blast
next
  show "fst (segment_stream out CHUNK_SIZE (str ''a((()))b'')) = Inr ()"
    by (simp add: eval_stream)
next
  show "line_buff (snd (segment_stream out CHUNK_SIZE (str ''a((()))b''))) = str ''a b''"
    by (simp add: eval_stream)
qed

theorem filtered_run_collapses_to_one_space_witness:
  "dict_get BAD_CHARS 40 False
   \<and> str ''((('' \<noteq> [] \<and> list_all (\<lambda>c. dict_get BAD_CHARS c False) (str ''((('')
   \<and> scan_char ascii_stdout (initial\<lparr>line_buff := str ''a''\<rparr>) 40
       = (Inr (), initial\<lparr>line_buff := str ''a ''\<rparr>)
   \<and> scan_chars ascii_stdout (initial\<lparr>line_buff := str ''a''\<rparr>) (str ''((('')
       = (Inr (), initial\<lparr>line_buff := str ''a ''\<rparr>)
   \<and> scan_chars ascii_stdout (initial\<lparr>line_buff := str ''a ''\<rparr>) (str ''((('')
       = (Inr (), initial\<lparr>line_buff := str ''a ''\<rparr>)"
proof -
  have b: "dict_get BAD_CHARS 40 False"
    by (simp add: bad_iff)
  have r: "str ''((('' \<noteq> [] \<and> list_all (\<lambda>c. dict_get BAD_CHARS c False) (str ''((('')"
    by (simp add: str_def bad_iff)
  have e: "\<not> endswith (line_buff (initial\<lparr>line_buff := str ''a''\<rparr>)) (str '' '')"
          "endswith (line_buff (initial\<lparr>line_buff := str ''a ''\<rparr>)) (str '' '')"
    by (simp_all add: endswith_space) (simp_all add: str_def)
  from b r e
    filtered_run_collapses_to_one_space
      [of 40 ascii_stdout "initial\<lparr>line_buff := str ''a''\<rparr>" "str ''(((''"]
    filtered_run_collapses_to_one_space
      [of 40 ascii_stdout "initial\<lparr>line_buff := str ''a ''\<rparr>" "str ''(((''"]
  show ?thesis
    by (simp add: str_def list_all_iff)
qed

text \<open>
  C10. No submitted phrase contains a filtered character or a sentence marker (a
  filtered character is replaced by a space, a sentence marker is never stored; a clause
  marker may be stored by the short-buffer branch).
\<close>

theorem emitted_without_filtered_or_sentence_chars:
  "\<forall>(k, p) \<in> set (futures (snd (segment_stream out n text))).
     \<forall>c \<in> set p. \<not> dict_get BAD_CHARS c False \<and> \<not> dict_get SENTENCE_MARKERS c False"
proof -
  let ?ok = "\<lambda>c. \<not> dict_get BAD_CHARS c False \<and> \<not> dict_get SENTENCE_MARKERS c False"
  let ?P = "\<lambda>r. (\<forall>c \<in> set (line_buff (snd r)). ?ok c) \<and>
                (\<forall>(k, p) \<in> set (futures (snd r)). \<forall>c \<in> set p. ?ok c)"
  have "?P (read_chunks out n initial text)"
  proof (rule read_chunks_invariant [where P = ?P])
    show "?P (Inr (), initial)" by (simp add: initial_def)
  next
    fix s :: segmenter assume "?P (Inr (), s)"
    then show "?P (Inr (), s\<lparr>line_buff := []\<rparr>)" by simp
  next
    fix s :: segmenter and c assume inv: "?P (Inr (), s)"
    from inv have a: "\<forall>c \<in> set (line_buff s). ?ok c"
      unfolding snd_conv by (rule conjunct1)
    from inv have b: "\<forall>(k, p) \<in> set (futures s). \<forall>c \<in> set p. ?ok c"
      unfolding snd_conv by (rule conjunct2)
    show "?P (scan_char out s c)" by (rule clean_step [OF a b])
  qed
  then show ?thesis by (simp add: segment_stream_def)
qed

theorem emitted_without_filtered_or_sentence_chars_witness:
  "(1, str '' and a clause marker, kept'')
     \<in> set (futures (snd (segment_stream ascii_stdout CHUNK_SIZE
         (str ''a long enough (quoted) phrase; and a clause marker, kept. rest''))))
   \<and> list_all (\<lambda>c. \<not> dict_get BAD_CHARS c False \<and> \<not> dict_get SENTENCE_MARKERS c False)
        (str '' and a clause marker, kept'')"
proof -
  have "(1, str '' and a clause marker, kept'')
     \<in> set (futures (snd (segment_stream ascii_stdout CHUNK_SIZE
         (str ''a long enough (quoted) phrase; and a clause marker, kept. rest''))))"
    by (simp add: eval_stream)
  with emitted_without_filtered_or_sentence_chars
    [of ascii_stdout CHUNK_SIZE
        "str ''a long enough (quoted) phrase; and a clause marker, kept. rest''"]
  show ?thesis unfolding list_all_iff by blast
qed

text \<open>
  C2, as the code has it. \<open>ultimate_text\<close>, the content written to the source when the
  scan has run through, is the concatenation of all submitted phrases in submission
  order: the sentence-marker branch appends its phrase to \<open>ultimate_text\<close> exactly as the
  clause-marker branch does. The scan runs through on every text that standard output
  can encode.
\<close>

theorem ultimate_text_is_all_emissions:
  "(fst (segment_stream out n text) = Inr () \<longrightarrow>
      ultimate_text (snd (segment_stream out n text))
        = concat (map snd (futures (snd (segment_stream out n text)))))
   \<and> (out 32 \<and> list_all out text \<longrightarrow> fst (segment_stream out n text) = Inr ())"
proof (intro conjI impI)
  let ?P = "\<lambda>r. fst r = Inr () \<longrightarrow>
              ultimate_text (snd r) = concat (map snd (futures (snd r)))"
  have "?P (read_chunks out n initial text)"
  proof (rule read_chunks_invariant [where P = ?P])
    show "?P (Inr (), initial)" by (simp add: initial_def)
  next
    fix s :: segmenter assume "?P (Inr (), s)"
    then show "?P (Inr (), s\<lparr>line_buff := []\<rparr>)" by simp
  next
    fix s :: segmenter and c assume "?P (Inr (), s)"
    then show "?P (scan_char out s c)" using accumulated_step [where s = s and out = out and c = c] by simp
  qed
  moreover assume "fst (segment_stream out n text) = Inr ()"
  ultimately show "ultimate_text (snd (segment_stream out n text))
        = concat (map snd (futures (snd (segment_stream out n text))))"
    by (simp add: segment_stream_def)
next
  assume "out 32 \<and> list_all out text"
  then show "fst (segment_stream out n text) = Inr ()"
    unfolding segment_stream_def
    by (intro read_chunks_printable) (simp_all add: initial_def)
qed

theorem ultimate_text_is_all_emissions_witness:
  "ascii_stdout 32
   \<and> list_all ascii_stdout (str ''a clause that is long enough, a sentence that is long enough.'')
   \<and> fst (segment_stream ascii_stdout CHUNK_SIZE
        (str ''a clause that is long enough, a sentence that is long enough.'')) = Inr ()
   \<and> ultimate_text (snd (segment_stream ascii_stdout CHUNK_SIZE
        (str ''a clause that is long enough, a sentence that is long enough.'')))
       = str ''a clause that is long enough a sentence that is long enough''"
proof -
  have p: "ascii_stdout 32
    \<and> list_all ascii_stdout (str ''a clause that is long enough, a sentence that is long enough.'')"
    by (simp add: ascii_stdout_def str_def)
  have f: "futures (snd (segment_stream ascii_stdout CHUNK_SIZE
        (str ''a clause that is long enough, a sentence that is long enough.'')))
      = [(0, str ''a clause that is long enough''), (1, str '' a sentence that is long enough'')]"
    by (simp add: eval_stream)
  from p ultimate_text_is_all_emissions
    [of ascii_stdout CHUNK_SIZE
        "str ''a clause that is long enough, a sentence that is long enough.''"]
  show ?thesis
    by (simp add: f) (simp add: str_def)
qed

text \<open>
  C2, as stated, fails: the stream \<^verbatim>\<open>a long enough sentence here.\<close> holds no clause
  marker, its one phrase is printed and submitted at the full stop, and that phrase is
  in \<open>ultimate_text\<close>.
\<close>

theorem sentence_emission_is_accumulated:
  "list_all (\<lambda>c. \<not> dict_get CLAUSE_MARKERS c False) (str ''a long enough sentence here.'')
   \<and> fst (segment_stream ascii_stdout CHUNK_SIZE (str ''a long enough sentence here.'')) = Inr ()
   \<and> futures (snd (segment_stream ascii_stdout CHUNK_SIZE (str ''a long enough sentence here.'')))
       = [(0, str ''a long enough sentence here'')]
   \<and> ultimate_text (snd (segment_stream ascii_stdout CHUNK_SIZE
        (str ''a long enough sentence here.'')))
       = str ''a long enough sentence here''"
  by (simp add: eval_stream)

text \<open>
  C1. Chunk transparency would make the submissions of a stream read in chunks of
  \<open>CHUNK_SIZE\<close> equal to those of the same text scanned as a single chunk. The chunk loop
  empties the line buffer at the start of every chunk, so it does not hold: for the text
  of 10000 letters \<^verbatim>\<open>a\<close> followed by a comma, the first chunk ends before the comma and
  its buffer is dropped, the second chunk is the comma alone, and the scan runs through
  with nothing printed or submitted. The same text scanned as one chunk (or read with
  chunk size 10001) meets the comma with the 10000 letters in the buffer: it submits them
  as phrase 0 when standard output can encode the letter, and raises at the \<^verbatim>\<open>print\<close>
  when it cannot.
\<close>

theorem chunk_boundary_loses_the_line_buffer:
  "segment_stream out CHUNK_SIZE (replicate 10000 97 @ str '','')
     = (Inr (), \<lparr>line_buff = str '','', line_no = 0, ultimate_text = [], futures = []\<rparr>)
   \<and> scan_chunk out initial (replicate 10000 97 @ str '','')
     = (if out 97
        then (Inr (), \<lparr>line_buff = [], line_no = 1, ultimate_text = replicate 10000 97,
                       futures = [(0, replicate 10000 97)]\<rparr>)
        else (Inl UnicodeEncodeError,
              \<lparr>line_buff = replicate 10000 97, line_no = 0,
               ultimate_text = replicate 10000 97, futures = []\<rparr>))
   \<and> segment_stream out 10001 (replicate 10000 97 @ str '','')
     = scan_chunk out initial (replicate 10000 97 @ str '','')"
proof -
  have a: "\<not> dict_get BAD_CHARS 97 False" "\<not> dict_get CLAUSE_MARKERS 97 False"
    "\<not> dict_get SENTENCE_MARKERS 97 False"
    by (simp_all add: bad_iff clause_iff sentence_iff)
  have comma: "str '','' = [44]"
    by (simp add: str_def)
  have "read_chunks out 10000 initial (replicate 10000 97 @ [44])
          = (Inr (), initial\<lparr>line_buff := [44]\<rparr>)"
    using a by (rule split_at_marker) simp
  then have chunked: "segment_stream out CHUNK_SIZE (replicate 10000 97 @ str '','')
     = (Inr (), \<lparr>line_buff = str '','', line_no = 0, ultimate_text = [], futures = []\<rparr>)"
    by (simp add: segment_stream_def CHUNK_SIZE_def comma initial_def)
  have one: "scan_chunk out initial (replicate 10000 97 @ [44])
     = (if out 97
        then (Inr (), \<lparr>line_buff = [], line_no = 1, ultimate_text = replicate 10000 97,
                       futures = [(0, replicate 10000 97)]\<rparr>)
        else (Inl UnicodeEncodeError,
              \<lparr>line_buff = replicate 10000 97, line_no = 0,
               ultimate_text = replicate 10000 97, futures = []\<rparr>))"
    using a by (rule whole_in_one_chunk) (simp add: LONG_ENOUGH_def)
  have big: "read_chunks out 10001 initial (replicate 10000 97 @ [44])
      = scan_chunk out initial (replicate 10000 97 @ [44])"
    by (rule read_chunks_short) simp_all
  from chunked one big show ?thesis
    by (simp only: comma segment_stream_def simp_thms)
qed







section \<open>The unit of work, the pool and the barrier\<close>

lemma process_line_Inl:
  "fst (process_line env db sid ln line) = Inl e \<Longrightarrow> snd (process_line env db sid ln line) = db"
  by (auto simp add: process_line_def add_commit_def split: option.splits sum.splits)

lemma process_line_Inr:
  "fst (process_line env db sid ln line) = Inr u \<Longrightarrow>
   \<exists>p. snd (process_line env db sid ln line) = db\<lparr>phrases := phrases db @ [p]\<rparr> \<and>
       raw p = line \<and> phrase_line_no p = ln \<and> source p = sid"
  by (auto simp add: process_line_def add_commit_def query_source_one_def
      split: option.splits sum.splits)






lemma process_line_raises:
  "sources db sid = None \<or> isl (stem_sentence env line) \<or> isl (nlp_rhyme_sound env line) \<or>
   isl (count_syllables env line) \<or> isl (has_alliteration env line) \<Longrightarrow>
   isl (fst (process_line env db sid ln line))"
  by (auto simp add: process_line_def add_commit_def query_source_one_def
      split: option.splits sum.splits)

section \<open>Properties of the workers and of the completion barrier\<close>

text \<open>
  C9. A unit of work that succeeds leaves exactly one new phrase row, holding its line
  and sequence number and attached to its source; a unit that raises leaves the storage
  as it found it. In particular a missing source row or a raising analyzer makes the
  unit raise, with the storage unchanged.
\<close>

theorem process_line_writes_once_or_never:
  "(fst (process_line env db sid ln line) = Inr () \<longrightarrow>
      (\<exists>p. snd (process_line env db sid ln line) = db\<lparr>phrases := phrases db @ [p]\<rparr> \<and>
           raw p = line \<and> phrase_line_no p = ln \<and> source p = sid))
   \<and> (isl (fst (process_line env db sid ln line)) \<longrightarrow>
      snd (process_line env db sid ln line) = db)
   \<and> (sources db sid = None \<or> isl (stem_sentence env line) \<or> isl (nlp_rhyme_sound env line) \<or>
      isl (count_syllables env line) \<or> isl (has_alliteration env line) \<longrightarrow>
      isl (fst (process_line env db sid ln line)) \<and>
      snd (process_line env db sid ln line) = db)"
proof (intro conjI impI)
  assume "fst (process_line env db sid ln line) = Inr ()"
  then show "\<exists>p. snd (process_line env db sid ln line) = db\<lparr>phrases := phrases db @ [p]\<rparr> \<and>
           raw p = line \<and> phrase_line_no p = ln \<and> source p = sid"
    by (rule process_line_Inr)
next
  assume "isl (fst (process_line env db sid ln line))"
  then obtain e where "fst (process_line env db sid ln line) = Inl e"
    by (auto simp add: isl_def)
  then show "snd (process_line env db sid ln line) = db"
    by (rule process_line_Inl)
next
  assume a: "sources db sid = None \<or> isl (stem_sentence env line) \<or> isl (nlp_rhyme_sound env line) \<or>
      isl (count_syllables env line) \<or> isl (has_alliteration env line)"
  then show raised: "isl (fst (process_line env db sid ln line))"
    by (rule process_line_raises)
  then obtain e where "fst (process_line env db sid ln line) = Inl e"
    by (auto simp add: isl_def)
  then show "snd (process_line env db sid ln line) = db"
    by (rule process_line_Inl)
qed

theorem process_line_writes_once_or_never_witness:
  "fst (process_line reliable one_source 7 0 (str ''a phrase'')) = Inr ()
   \<and> phrases (snd (process_line reliable one_source 7 0 (str ''a phrase''))) =
       [\<lparr>stems = [str ''a phrase''], raw = str ''a phrase'', alliteration = False,
         rhyme_sound = str ''es'', syllables = 2, phrase_line_no = 0, source = 7\<rparr>]
   \<and> isl (count_syllables no_syllables (str ''a phrase''))
   \<and> fst (process_line no_syllables one_source 7 0 (str ''a phrase''))
       = Inl (ExtractionFailure (str ''a phrase''))
   \<and> snd (process_line no_syllables one_source 7 0 (str ''a phrase'')) = one_source
   \<and> sources one_source 8 = None
   \<and> fst (process_line reliable one_source 8 0 (str ''a phrase'')) = Inl NotFound
   \<and> snd (process_line reliable one_source 8 0 (str ''a phrase'')) = one_source"
proof -
  have ok: "fst (process_line reliable one_source 7 0 (str ''a phrase'')) = Inr ()"
    by (simp add: process_line_def reliable_def one_source_def query_source_one_def
        add_commit_def)
  have raises: "isl (count_syllables no_syllables (str ''a phrase''))"
    by (simp add: no_syllables_def)
  have absent: "sources one_source 8 = None"
    by (simp add: one_source_def)
  from ok raises absent
    process_line_writes_once_or_never [of reliable one_source 7 0 "str ''a phrase''"]
    process_line_writes_once_or_never [of no_syllables one_source 7 0 "str ''a phrase''"]
    process_line_writes_once_or_never [of reliable one_source 8 0 "str ''a phrase''"]
  show ?thesis
    by (simp add: process_line_def reliable_def no_syllables_def one_source_def
        query_source_one_def add_commit_def str_def)
qed






end
